theory Spec2Isabelle
  imports Complex_Main "HOL-Library.Sublist"
begin

section \<open>compressImageFileWithLimit (src/utils/compressImageFile.ts)\<close>

text \<open>
  The TypeScript function \<^verbatim>\<open>compressImageFileWithLimit(file, options)\<close> is embedded as a
  pure function over an explicit record of the browser capabilities it calls.

  \<^item> A JavaScript \<^verbatim>\<open>number\<close> is modelled as an exact rational (\<^typ>\<open>rat\<close>): the
    floating point rounding of the division, the multiplication and the repeated
    subtraction \<^verbatim>\<open>quality -= qualityStep\<close> is not represented, and neither are
    \<^verbatim>\<open>NaN\<close> and the infinities. The dimensions of a decoded image are integers.
  \<^item> A JavaScript string is a \<^typ>\<open>string\<close>, one \<^typ>\<open>char\<close> per code unit below 256
    (data URLs and the file names of the examples are ASCII).
  \<^item> A rejected promise or a thrown exception is a value \<open>Inl err\<close>.
  \<^item> The \<^verbatim>\<open>do ... while\<close> loop has no bound of its own (a non-positive
    \<^verbatim>\<open>qualityStep\<close> lets it run forever), so it is a partial function in the option
    monad: \<open>None\<close> is "does not return".
  \<^item> Every call of a browser capability is appended to a log, so that the number and the
    arguments of the calls can be stated.
\<close>

subsection \<open>Data\<close>

text \<open>The part of a DOM \<^verbatim>\<open>File\<close> the function reads or writes.\<close>

record File =
  name :: string
  type :: string
  bytes :: string

text \<open>A loaded \<^verbatim>\<open>HTMLImageElement\<close>: its source and its intrinsic dimensions.\<close>

record image =
  src :: string
  width :: int
  height :: int

text \<open>The options object, lines 13 to 29.\<close>

record config =
  maxLongSide :: rat
  maxShortSide :: rat
  maxSizeBytes :: rat
  mimeType :: string
  initialQuality :: rat
  minQuality :: rat
  qualityStep :: rat

definition defaults :: config where
  "defaults =
     \<lparr>maxLongSide = 1568, maxShortSide = 768, maxSizeBytes = 19 * 1024 * 1024,
      mimeType = ''image/webp'', initialQuality = 92 / 100, minQuality = 1 / 2,
      qualityStep = 7 / 100\<rparr>"

datatype error =
  FileReaderError
  | ImageLoadError
  | EncodeError
  | FetchError
  | TypeError
  | InvalidCharacterError

text \<open>
  The browser capabilities. \<open>readAsDataURL\<close> is \<^verbatim>\<open>FileReader.readAsDataURL\<close> (\<open>None\<close>:
  the error event); \<open>loadImage\<close> is the assignment to \<^verbatim>\<open>img.src\<close> (\<open>None\<close>: the error
  event); \<open>toDataURL\<close> stands for lines 73 to 78, a fresh canvas of the given width and
  height, \<^verbatim>\<open>drawImage\<close> and \<^verbatim>\<open>canvas.toDataURL(mimeType, quality)\<close> (\<open>None\<close>: one of
  these lines throws, as \<^verbatim>\<open>ctx.drawImage\<close> does when the canvas has no 2d context);
  \<open>fetchBlobSize\<close> is lines 79 and 80, the size of the blob fetched from a data URL
  (\<open>None\<close>: the fetch rejects); \<open>atob\<close> is base64 decoding (\<open>None\<close>: it throws).
\<close>

record env =
  readAsDataURL :: "File \<Rightarrow> string option"
  loadImage :: "string \<Rightarrow> image option"
  toDataURL :: "image \<Rightarrow> int \<Rightarrow> int \<Rightarrow> string \<Rightarrow> rat \<Rightarrow> string option"
  fetchBlobSize :: "string \<Rightarrow> nat option"
  atob :: "string \<Rightarrow> string option"

text \<open>
  The log. \<open>ToDataURL w h m q\<close> is one pass through lines 73 to 78 with the canvas size
  \<open>w\<close> by \<open>h\<close>, the mime type \<open>m\<close> and the quality \<open>q\<close>: one encode attempt, logged whether
  it yields a data URL or throws.
\<close>

datatype call =
  ReadAsDataURL
  | LoadImage
  | ToDataURL int int string rat
  | Fetch string
  | Atob string

subsection \<open>Dimension planning, lines 56 to 67\<close>

text \<open>\<^verbatim>\<open>Math.round\<close>: the nearest integer, a half rounded towards plus infinity.\<close>

definition Math_round :: "rat \<Rightarrow> int" where
  "Math_round x = \<lfloor>x + 1 / 2\<rfloor>"

text \<open>
  The result is \<open>(scale, width, height)\<close> as the three variables stand at line 68.
  The quotients and products of lines 64 to 66 are those of the rationals. The code
  computes them in double precision, which differs in two places. Where a product
  \<open>width * scale\<close> is exactly an integer plus one half, the rounded double product may lie
  just below the half, and the code then takes the lower neighbour where the definition
  takes the upper one (a 45 by 2240 image under the defaults: 31 in the code, 32 here).
  And a side of 0 makes line 64 divide by zero, which gives an infinity or \<^verbatim>\<open>NaN\<close> in
  JavaScript and 0 here. The theorems of the claims assume positive sides, and say of a
  planned dimension only what holds of either neighbour.
\<close>

definition isPortrait :: "int \<Rightarrow> int \<Rightarrow> bool" where
  "isPortrait width0 height0 = (height0 \<ge> width0)"

definition shortSide :: "int \<Rightarrow> int \<Rightarrow> int" where
  "shortSide width0 height0 = (if isPortrait width0 height0 then width0 else height0)"

definition longSide :: "int \<Rightarrow> int \<Rightarrow> int" where
  "longSide width0 height0 = (if isPortrait width0 height0 then height0 else width0)"

definition planDimensions :: "int \<Rightarrow> int \<Rightarrow> config \<Rightarrow> rat \<times> int \<times> int" where
  "planDimensions width0 height0 cfg =
     (if of_int (shortSide width0 height0) > maxShortSide cfg
         \<or> of_int (longSide width0 height0) > maxLongSide cfg
      then
        (let scale = min (maxShortSide cfg / of_int (shortSide width0 height0))
                         (maxLongSide cfg / of_int (longSide width0 height0))
         in (scale, Math_round (of_int width0 * scale), Math_round (of_int height0 * scale)))
      else (1, width0, height0))"

subsection \<open>The encode loop, lines 72 to 82\<close>

text \<open>
  One pass encodes at the current quality, fetches the blob, subtracts the step and tests
  the continuation condition on the decremented quality. The loop returns the last data
  URL, or the error of a pass that threw or of a rejected fetch.
\<close>

partial_function (option) encodeLoop ::
  "env \<Rightarrow> image \<Rightarrow> int \<Rightarrow> int \<Rightarrow> config \<Rightarrow> rat \<Rightarrow> call list
     \<Rightarrow> ((error + string) \<times> call list) option" where
  "encodeLoop e img w h cfg quality calls =
     (case toDataURL e img w h (mimeType cfg) quality of
        None \<Rightarrow> Some (Inl EncodeError, calls @ [ToDataURL w h (mimeType cfg) quality])
      | Some compressedDataURL \<Rightarrow>
          (case fetchBlobSize e compressedDataURL of
             None \<Rightarrow>
               Some (Inl FetchError,
                     calls @ [ToDataURL w h (mimeType cfg) quality, Fetch compressedDataURL])
           | Some blobSize \<Rightarrow>
               if of_nat blobSize > maxSizeBytes cfg
                  \<and> quality - qualityStep cfg > minQuality cfg
               then encodeLoop e img w h cfg (quality - qualityStep cfg)
                      (calls @ [ToDataURL w h (mimeType cfg) quality, Fetch compressedDataURL])
               else Some (Inr compressedDataURL,
                          calls @ [ToDataURL w h (mimeType cfg) quality,
                                   Fetch compressedDataURL])))"

subsection \<open>Building the result, lines 85 to 91\<close>

text \<open>\<^verbatim>\<open>s.split(',')\<close>: the pieces between the commas, never an empty array.\<close>

fun split :: "string \<Rightarrow> string list" where
  "split [] = [[]]"
| "split (c # cs) =
     (if c = CHR '','' then [] # split cs
      else (case split cs of [] \<Rightarrow> [[c]] | p # ps \<Rightarrow> (c # p) # ps))"

text \<open>
  \<^verbatim>\<open>s.match(/:(.*?);/)\<close>, group 1: from the leftmost colon that is followed on its line
  by a semicolon, the characters up to the first such semicolon; \<open>None\<close> is \<^verbatim>\<open>null\<close>.
  The dot of the pattern matches no line terminator.
\<close>

definition isLineTerminator :: "char \<Rightarrow> bool" where
  "isLineTerminator c = (c = CHR 0x0A \<or> c = CHR 0x0D)"

fun untilSemicolon :: "string \<Rightarrow> string option" where
  "untilSemicolon [] = None"
| "untilSemicolon (c # cs) =
     (if c = CHR '';'' then Some []
      else if isLineTerminator c then None
      else map_option (Cons c) (untilSemicolon cs))"

fun matchMime :: "string \<Rightarrow> string option" where
  "matchMime [] = None"
| "matchMime (c # cs) =
     (if c = CHR '':'' then
        (case untilSemicolon cs of Some m \<Rightarrow> Some m | None \<Rightarrow> matchMime cs)
      else matchMime cs)"

text \<open>\<^verbatim>\<open>\w\<close>: an ASCII letter, a digit or the underscore.\<close>

definition isWordChar :: "char \<Rightarrow> bool" where
  "isWordChar c =
     (let n = of_char c :: nat
      in (97 \<le> n \<and> n \<le> 122) \<or> (65 \<le> n \<and> n \<le> 90) \<or> (48 \<le> n \<and> n \<le> 57) \<or> n = 95)"

text \<open>
  \<^verbatim>\<open>name.replace(/\.\w+$/, '.webp')\<close>: the leftmost dot followed by one or more word
  characters up to the end of the string is replaced, with what follows it, by
  \<^verbatim>\<open>.webp\<close>; a name with no such suffix is returned as it is.
\<close>

fun replaceExtension :: "string \<Rightarrow> string" where
  "replaceExtension [] = []"
| "replaceExtension (c # cs) =
     (if c = CHR ''.'' \<and> cs \<noteq> [] \<and> list_all isWordChar cs then ''.webp''
      else c # replaceExtension cs)"

text \<open>
  Lines 85 to 91. \<^verbatim>\<open>arr[0].match(...)![1]\<close> throws a TypeError when the match is
  \<^verbatim>\<open>null\<close>; \<^verbatim>\<open>arr[1]\<close> is \<^verbatim>\<open>undefined\<close> when the data URL has no comma, and
  \<^verbatim>\<open>atob\<close> then receives the string \<^verbatim>\<open>undefined\<close>.
\<close>

definition buildResult ::
  "env \<Rightarrow> File \<Rightarrow> string \<Rightarrow> call list \<Rightarrow> (error + File) \<times> call list" where
  "buildResult e f compressedDataURL calls =
     (let arr = split compressedDataURL
      in case matchMime (hd arr) of
           None \<Rightarrow> (Inl TypeError, calls)
         | Some outMime \<Rightarrow>
             (let payload = (case tl arr of [] \<Rightarrow> ''undefined'' | p # _ \<Rightarrow> p)
              in case atob e payload of
                   None \<Rightarrow> (Inl InvalidCharacterError, calls @ [Atob payload])
                 | Some bstr \<Rightarrow>
                     (Inr \<lparr>name = replaceExtension (name f), type = outMime, bytes = bstr\<rparr>,
                      calls @ [Atob payload])))"

subsection \<open>The function, lines 11 to 92\<close>

definition compressImageFileWithLimit ::
  "env \<Rightarrow> File \<Rightarrow> config \<Rightarrow> ((error + File) \<times> call list) option" where
  "compressImageFileWithLimit e f cfg =
     (if \<not> prefix ''image/'' (type f) then Some (Inr f, [])
      else case readAsDataURL e f of
             None \<Rightarrow> Some (Inl FileReaderError, [ReadAsDataURL])
           | Some dataURL \<Rightarrow>
               (case loadImage e dataURL of
                  None \<Rightarrow> Some (Inl ImageLoadError, [ReadAsDataURL, LoadImage])
                | Some img \<Rightarrow>
                    (case planDimensions (width img) (height img) cfg of
                       (scale, w, h) \<Rightarrow>
                         (case encodeLoop e img w h cfg (initialQuality cfg)
                                 [ReadAsDataURL, LoadImage] of
                            None \<Rightarrow> None
                          | Some (Inl err, calls) \<Rightarrow> Some (Inl err, calls)
                          | Some (Inr compressedDataURL, calls) \<Rightarrow>
                              Some (buildResult e f compressedDataURL calls)))))"

text \<open>The qualities passed to the encoder, in the order of the calls.\<close>

fun encodeQualities :: "call list \<Rightarrow> rat list" where
  "encodeQualities [] = []"
| "encodeQualities (ToDataURL w h m q # cs) = q # encodeQualities cs"
| "encodeQualities (c # cs) = encodeQualities cs"


subsection \<open>Auxiliary notions for the statements\<close>

text \<open>The value assigned to \<^verbatim>\<open>scale\<close> at line 64.\<close>

definition planScale :: "int \<Rightarrow> int \<Rightarrow> config \<Rightarrow> rat" where
  "planScale width0 height0 cfg =
     min (maxShortSide cfg / of_int (shortSide width0 height0))
         (maxLongSide cfg / of_int (longSide width0 height0))"

text \<open>The calls one pass of the loop makes.\<close>

definition passCalls :: "env \<Rightarrow> image \<Rightarrow> int \<Rightarrow> int \<Rightarrow> config \<Rightarrow> rat \<Rightarrow> call list" where
  "passCalls e img w h cfg q =
     (case toDataURL e img w h (mimeType cfg) q of
        None \<Rightarrow> [ToDataURL w h (mimeType cfg) q]
      | Some u \<Rightarrow> [ToDataURL w h (mimeType cfg) q, Fetch u])"

text \<open>
  What holds of a run of the loop that started at quality \<open>q\<close>, returned \<open>r\<close> and
  made the calls \<open>ext\<close>: the first attempt is at \<open>q\<close>, every later one above the floor;
  an error is that of the last attempt, which threw or whose fetch was rejected; a data
  URL is that of the last attempt, which either fits the budget or was followed by a
  quality at or below the floor.
\<close>

definition loopPost ::
  "env \<Rightarrow> image \<Rightarrow> int \<Rightarrow> int \<Rightarrow> config \<Rightarrow> rat \<Rightarrow> (error + string) \<Rightarrow> call list \<Rightarrow> bool" where
  "loopPost e img w h cfg q r ext \<longleftrightarrow>
     encodeQualities ext \<noteq> [] \<and> hd (encodeQualities ext) = q
     \<and> (\<forall>x \<in> set (tl (encodeQualities ext)). minQuality cfg < x)
     \<and> (case r of
           Inl err \<Rightarrow>
             (case toDataURL e img w h (mimeType cfg) (last (encodeQualities ext)) of
                None \<Rightarrow> err = EncodeError
              | Some u \<Rightarrow> err = FetchError \<and> fetchBlobSize e u = None)
         | Inr u \<Rightarrow>
             toDataURL e img w h (mimeType cfg) (last (encodeQualities ext)) = Some u
             \<and> (\<exists>n. fetchBlobSize e u = Some n
                  \<and> (of_nat n \<le> maxSizeBytes cfg
                      \<or> last (encodeQualities ext) - qualityStep cfg \<le> minQuality cfg)))"

text \<open>
  The shape of the data URLs a canvas returns, \<^verbatim>\<open>data:<mime>;base64,<payload>\<close>, and
  the characters a mime type and a base64 payload do not contain.
\<close>

definition dataURL :: "string \<Rightarrow> string \<Rightarrow> string" where
  "dataURL m p = ''data:'' @ m @ '';base64,'' @ p"

definition plainMime :: "string \<Rightarrow> bool" where
  "plainMime m = list_all (\<lambda>c. c \<noteq> CHR '';'' \<and> c \<noteq> CHR '','' \<and> \<not> isLineTerminator c) m"


text \<open>
  An environment for the examples: a 3000 by 2000 image and an encoder that honours the
  requested mime type, with a payload of three bytes; and the same environment with an
  encoder without WebP support, which answers every request with a PNG data URL.
\<close>

definition exampleEnv :: env where
  "exampleEnv =
     \<lparr>readAsDataURL = (\<lambda>f. Some ''data:image/jpeg;base64,LzlqLw==''),
      loadImage = (\<lambda>u. Some \<lparr>src = u, width = 3000, height = 2000\<rparr>),
      toDataURL = (\<lambda>img w h m q. Some (''data:'' @ m @ '';base64,QUJD'')),
      fetchBlobSize = (\<lambda>u. Some 3),
      atob = (\<lambda>s. if s = ''QUJD'' then Some ''ABC'' else None)\<rparr>"

definition pngOnlyEnv :: env where
  "pngOnlyEnv =
     exampleEnv\<lparr>toDataURL := (\<lambda>img w h m q. Some ''data:image/png;base64,QUJD'')\<rparr>"

definition exampleImage :: image where
  "exampleImage = \<lparr>src = ''data:image/jpeg;base64,LzlqLw=='', width = 3000, height = 2000\<rparr>"

definition examplePhoto :: File where
  "examplePhoto = \<lparr>name = ''photo.jpeg'', type = ''image/jpeg'', bytes = ''/9j/''\<rparr>"

definition plainPhoto :: File where
  "plainPhoto = \<lparr>name = ''photo'', type = ''image/jpeg'', bytes = ''/9j/''\<rparr>"

text \<open>The defaults with a byte budget no encoding of the examples meets.\<close>

definition tightConfig :: config where
  "tightConfig = defaults\<lparr>maxSizeBytes := 2\<rparr>"

section \<open>Properties\<close>

subsection \<open>Rounding and the planner\<close>

lemma Math_round_of_int: "Math_round (of_int n) = n"
  unfolding Math_round_def by linarith

lemma Math_round_mono: "x \<le> y \<Longrightarrow> Math_round x \<le> Math_round y"
  unfolding Math_round_def by (simp add: floor_mono)

lemma Math_round_error: "\<bar>of_int (Math_round x) - x\<bar> \<le> 1 / 2"
  unfolding Math_round_def by linarith

lemma Math_round_le_int: "x \<le> of_int n \<Longrightarrow> Math_round x \<le> n"
  using Math_round_mono [of x "of_int n"] by (simp add: Math_round_of_int)

lemma Math_round_zero_iff: "0 \<le> x \<Longrightarrow> Math_round x = 0 \<longleftrightarrow> x < 1 / 2"
  unfolding Math_round_def by linarith

lemma Math_round_nonneg: "0 \<le> x \<Longrightarrow> 0 \<le> Math_round x"
  unfolding Math_round_def by linarith

lemma Math_round_one_le: "1 / 2 < x \<Longrightarrow> 1 \<le> Math_round x"
  unfolding Math_round_def by linarith

lemma shortSide_min: "shortSide w h = min w h"
  by (simp add: shortSide_def isPortrait_def min_def)

lemma longSide_max: "longSide w h = max w h"
  by (simp add: longSide_def isPortrait_def max_def)

lemma planDimensions_resize:
  "of_int (shortSide w h) > maxShortSide cfg \<or> of_int (longSide w h) > maxLongSide cfg \<Longrightarrow>
   planDimensions w h cfg =
     (planScale w h cfg, Math_round (of_int w * planScale w h cfg),
      Math_round (of_int h * planScale w h cfg))"
  unfolding planDimensions_def planScale_def Let_def by simp

lemma planDimensions_keep:
  "\<not> (of_int (shortSide w h) > maxShortSide cfg \<or> of_int (longSide w h) > maxLongSide cfg) \<Longrightarrow>
   planDimensions w h cfg = (1, w, h)"
  unfolding planDimensions_def by simp

lemma sides_pos:
  assumes "0 < w" "0 < h"
  shows "(0::rat) < of_int (shortSide w h)" "(0::rat) < of_int (longSide w h)"
  using assms by (simp_all add: shortSide_min longSide_max)

lemma planScale_less_1:
  assumes "0 < w" "0 < h"
    and "of_int (shortSide w h) > maxShortSide cfg \<or> of_int (longSide w h) > maxLongSide cfg"
  shows "planScale w h cfg < 1"
proof -
  note p = sides_pos [OF assms(1,2)]
  from assms(3) show ?thesis
  proof
    assume "of_int (shortSide w h) > maxShortSide cfg"
    then have "maxShortSide cfg / of_int (shortSide w h) < 1"
      using p by (simp add: divide_less_eq)
    then show ?thesis unfolding planScale_def by simp
  next
    assume "of_int (longSide w h) > maxLongSide cfg"
    then have "maxLongSide cfg / of_int (longSide w h) < 1"
      using p by (simp add: divide_less_eq)
    then show ?thesis unfolding planScale_def by simp
  qed
qed

lemma planScale_nonneg:
  assumes "0 < w" "0 < h" "0 \<le> maxShortSide cfg" "0 \<le> maxLongSide cfg"
  shows "0 \<le> planScale w h cfg"
  using sides_pos [OF assms(1,2)] assms(3,4) unfolding planScale_def by simp

lemma planScale_short:
  assumes "0 < w" "0 < h"
  shows "of_int (shortSide w h) * planScale w h cfg \<le> maxShortSide cfg"
proof -
  note p = sides_pos [OF assms]
  have "planScale w h cfg \<le> maxShortSide cfg / of_int (shortSide w h)"
    unfolding planScale_def by simp
  then show ?thesis using p(1) by (simp add: pos_le_divide_eq mult.commute)
qed

lemma planScale_long:
  assumes "0 < w" "0 < h"
  shows "of_int (longSide w h) * planScale w h cfg \<le> maxLongSide cfg"
proof -
  note p = sides_pos [OF assms]
  have "planScale w h cfg \<le> maxLongSide cfg / of_int (longSide w h)"
    unfolding planScale_def by simp
  then show ?thesis using p(2) by (simp add: pos_le_divide_eq mult.commute)
qed

lemma scaled_le:
  assumes "0 \<le> n" "s \<le> 1"
  shows "Math_round (of_int n * s) \<le> n"
proof -
  have "of_int n * s \<le> of_int n * (1::rat)" using assms by (intro mult_left_mono) auto
  then show ?thesis by (intro Math_round_le_int) simp
qed

lemma scaled_mono:
  assumes "a \<le> b" "0 \<le> s"
  shows "Math_round (of_int a * s) \<le> Math_round (of_int b * s)"
  using assms by (intro Math_round_mono mult_right_mono) auto

lemma cross_error:
  fixes s :: rat and w h w' h' :: int
  assumes "0 < w" "0 < h"
    and "\<bar>of_int w' - s * of_int w\<bar> \<le> 1 / 2" "\<bar>of_int h' - s * of_int h\<bar> \<le> 1 / 2"
  shows "\<bar>of_int (w' * h) - of_int (h' * w) :: rat\<bar> \<le> (of_int w + of_int h) / 2"
proof -
  have e: "of_int (w' * h) - of_int (h' * w) =
        (of_int w' - s * of_int w) * of_int h - (of_int h' - s * of_int h) * (of_int w :: rat)"
    by (simp add: algebra_simps)
  have a: "\<bar>(of_int w' - s * of_int w) * of_int h\<bar> \<le> (1 / 2) * (of_int h :: rat)"
    using assms(2,3) by (simp add: abs_mult mult_right_mono)
  have b: "\<bar>(of_int h' - s * of_int h) * of_int w\<bar> \<le> (1 / 2) * (of_int w :: rat)"
    using assms(1,4) by (simp add: abs_mult mult_right_mono)
  have t: "\<bar>x\<bar> \<le> c \<Longrightarrow> \<bar>y\<bar> \<le> d \<Longrightarrow> \<bar>x - y\<bar> \<le> c + d" for x y c d :: rat
    by linarith
  have "(1 / 2) * (of_int h :: rat) + (1 / 2) * of_int w = (of_int w + of_int h) / 2"
    by simp
  then show ?thesis unfolding e using t [OF a b] by simp
qed

text \<open>
  Claim C3. An image whose short side and long side are both within the limits keeps its
  dimensions, with scale 1; and whatever the limits, no planned dimension of an image
  with positive sides is larger than the original one.
\<close>

theorem planDimensions_keeps_and_never_upscales:
  assumes "0 < w" "0 < h"
  shows "(of_int (shortSide w h) \<le> maxShortSide cfg \<and> of_int (longSide w h) \<le> maxLongSide cfg
            \<longrightarrow> planDimensions w h cfg = (1, w, h))
         \<and> fst (snd (planDimensions w h cfg)) \<le> w
         \<and> snd (snd (planDimensions w h cfg)) \<le> h"
proof (cases "of_int (shortSide w h) > maxShortSide cfg \<or> of_int (longSide w h) > maxLongSide cfg")
  case True
  have "planScale w h cfg \<le> 1" using planScale_less_1 [OF assms True] by simp
  then have "Math_round (of_int w * planScale w h cfg) \<le> w"
    and "Math_round (of_int h * planScale w h cfg) \<le> h"
    using assms by (simp_all add: scaled_le)
  then show ?thesis using True by (auto simp add: planDimensions_resize)
next
  case False
  then show ?thesis by (simp add: planDimensions_keep)
qed

theorem planDimensions_keeps_and_never_upscales_witness:
  "planDimensions 500 400 defaults = (1, 500, 400)
   \<and> fst (snd (planDimensions 3000 2000 defaults)) \<le> 3000
   \<and> snd (snd (planDimensions 3000 2000 defaults)) \<le> 2000"
  using planDimensions_keeps_and_never_upscales [of 500 400 defaults]
    planDimensions_keeps_and_never_upscales [of 3000 2000 defaults]
  by (simp add: shortSide_def longSide_def isPortrait_def defaults_def)

text \<open>
  Claim C2. Let the limits be non-negative integers and the image have positive sides,
  one of them over its limit. Then the short side of the planned dimensions is at most
  \<open>maxShortSide\<close> and their long side at most \<open>maxLongSide\<close>. The aspect ratio is kept up
  to rounding: each planned dimension is within half a pixel of the original dimension
  times the common scale, so that the cross products \<open>w' * h\<close> and \<open>h' * w\<close> differ by at
  most \<open>(w + h) / 2\<close>.
\<close>

theorem planDimensions_within_limits:
  assumes "0 < w" "0 < h"
    and "maxShortSide cfg = of_int ms" "0 \<le> ms"
    and "maxLongSide cfg = of_int ml" "0 \<le> ml"
    and "of_int (shortSide w h) > maxShortSide cfg \<or> of_int (longSide w h) > maxLongSide cfg"
    and "planDimensions w h cfg = (scale, w', h')"
  shows "shortSide w' h' \<le> ms \<and> longSide w' h' \<le> ml
         \<and> \<bar>of_int w' - scale * of_int w\<bar> \<le> 1 / 2
         \<and> \<bar>of_int h' - scale * of_int h\<bar> \<le> 1 / 2
         \<and> \<bar>of_int (w' * h) - of_int (h' * w) :: rat\<bar> \<le> (of_int w + of_int h) / 2"
proof -
  have sc: "scale = planScale w h cfg"
    and w': "w' = Math_round (of_int w * scale)"
    and h': "h' = Math_round (of_int h * scale)"
    using assms(8) planDimensions_resize [OF assms(7)] by auto
  have s0: "0 \<le> scale" unfolding sc using assms by (intro planScale_nonneg) simp_all
  have "Math_round (of_int (shortSide w h) * scale) \<le> ms"
    using planScale_short [OF assms(1,2), of cfg] unfolding sc assms(3) by (rule Math_round_le_int)
  moreover have "Math_round (of_int (longSide w h) * scale) \<le> ml"
    using planScale_long [OF assms(1,2), of cfg] unfolding sc assms(5) by (rule Math_round_le_int)
  moreover have "w \<le> h \<Longrightarrow> w' \<le> h'" unfolding w' h' by (rule scaled_mono [OF _ s0])
  moreover have "h \<le> w \<Longrightarrow> h' \<le> w'" unfolding w' h' by (rule scaled_mono [OF _ s0])
  ultimately have side: "shortSide w' h' \<le> ms \<and> longSide w' h' \<le> ml"
    unfolding shortSide_min longSide_max w' h' by (cases "w \<le> h") (auto simp: min_def max_def)
  have ew: "\<bar>of_int w' - scale * of_int w\<bar> \<le> 1 / 2"
    unfolding w' using Math_round_error [of "of_int w * scale"] by (simp add: mult.commute)
  have eh: "\<bar>of_int h' - scale * of_int h\<bar> \<le> 1 / 2"
    unfolding h' using Math_round_error [of "of_int h * scale"] by (simp add: mult.commute)
  show ?thesis using side ew eh cross_error [OF assms(1,2) ew eh] by blast
qed

theorem planDimensions_within_limits_witness:
  "planDimensions 3000 2000 defaults = (48 / 125, 1152, 768)
   \<and> shortSide 1152 768 \<le> 768 \<and> longSide 1152 768 \<le> 1568
   \<and> \<bar>of_int (1152 * 2000) - of_int (768 * 3000) :: rat\<bar> \<le> (of_int 3000 + of_int 2000) / 2"
proof -
  have p: "planDimensions 3000 2000 defaults = (48 / 125, 1152, 768)"
    by (simp add: planDimensions_def shortSide_def longSide_def isPortrait_def defaults_def
        Math_round_def floor_eq_iff)
  show ?thesis
    using planDimensions_within_limits [of 3000 2000 defaults 768 1568 "48 / 125" 1152 768] p
    by (simp add: shortSide_def longSide_def isPortrait_def defaults_def)
qed

text \<open>
  Claim C8, as the code has it. The planner rounds and does not clamp. For an image with
  positive sides that triggers resizing under non-negative limits, each planned dimension
  is an integer nearest to the original dimension times the scale of line 64, within half
  a pixel of it. It is never negative; it is 0 whenever that product is below one half,
  and at least 1 whenever the product is above one half.
\<close>

theorem planDimensions_rounds_without_clamp:
  assumes "0 < w" "0 < h" "0 \<le> maxShortSide cfg" "0 \<le> maxLongSide cfg"
    and "of_int (shortSide w h) > maxShortSide cfg \<or> of_int (longSide w h) > maxLongSide cfg"
  shows "0 \<le> fst (snd (planDimensions w h cfg))
         \<and> 0 \<le> snd (snd (planDimensions w h cfg))
         \<and> \<bar>of_int (fst (snd (planDimensions w h cfg))) - of_int w * planScale w h cfg\<bar> \<le> 1 / 2
         \<and> \<bar>of_int (snd (snd (planDimensions w h cfg))) - of_int h * planScale w h cfg\<bar> \<le> 1 / 2
         \<and> (of_int w * planScale w h cfg < 1 / 2 \<longrightarrow> fst (snd (planDimensions w h cfg)) = 0)
         \<and> (1 / 2 < of_int w * planScale w h cfg \<longrightarrow> 1 \<le> fst (snd (planDimensions w h cfg)))
         \<and> (of_int h * planScale w h cfg < 1 / 2 \<longrightarrow> snd (snd (planDimensions w h cfg)) = 0)
         \<and> (1 / 2 < of_int h * planScale w h cfg \<longrightarrow> 1 \<le> snd (snd (planDimensions w h cfg)))"
proof -
  have s0: "0 \<le> planScale w h cfg" using assms(1-4) by (rule planScale_nonneg)
  have near: "0 \<le> Math_round x \<and> \<bar>of_int (Math_round x) - x\<bar> \<le> 1 / 2
              \<and> (x < 1 / 2 \<longrightarrow> Math_round x = 0) \<and> (1 / 2 < x \<longrightarrow> 1 \<le> Math_round x)"
    if "0 \<le> x" for x :: rat
    using that Math_round_nonneg [OF that] Math_round_error [of x] Math_round_zero_iff [OF that]
      Math_round_one_le [of x]
    by simp
  have "0 \<le> of_int w * planScale w h cfg" "0 \<le> of_int h * planScale w h cfg"
    using s0 assms(1,2) by simp_all
  then show ?thesis
    using near [of "of_int w * planScale w h cfg"] near [of "of_int h * planScale w h cfg"]
    unfolding planDimensions_resize [OF assms(5)] by simp
qed

theorem planDimensions_rounds_without_clamp_witness:
  "fst (snd (planDimensions 1 10000 defaults)) = 0
   \<and> 1 \<le> snd (snd (planDimensions 1 10000 defaults))
   \<and> planScale 1 10000 defaults = 98 / 625"
proof -
  have s: "planScale 1 10000 defaults = 98 / 625"
    by (simp add: planScale_def shortSide_def longSide_def isPortrait_def defaults_def)
  show ?thesis
    using planDimensions_rounds_without_clamp [of 1 10000 defaults] unfolding s
    by (simp add: shortSide_def longSide_def isPortrait_def defaults_def)
qed

text \<open>
  Claim C8 as stated fails: a 1 by 10000 image under the default limits triggers
  resizing, and its planned width is 0, not 1.
\<close>

theorem planDimensions_zero_width_counterexample:
  "of_int (longSide 1 10000) > maxLongSide defaults
   \<and> planDimensions 1 10000 defaults = (98 / 625, 0, 1568)
   \<and> fst (snd (planDimensions 1 10000 defaults))
       \<noteq> max 1 (Math_round (of_int 1 * fst (planDimensions 1 10000 defaults)))"
  by (simp add: planDimensions_def shortSide_def longSide_def isPortrait_def defaults_def
      Math_round_def floor_eq_iff)

subsection \<open>The encode loop\<close>

lemma encodeQualities_append [simp]:
  "encodeQualities (xs @ ys) = encodeQualities xs @ encodeQualities ys"
  by (induction xs rule: encodeQualities.induct) simp_all

lemma encodeQualities_passCalls [simp]:
  "encodeQualities (passCalls e img w h cfg q) = [q]"
  by (simp add: passCalls_def split: option.splits)

text \<open>The four ways one pass can go.\<close>

lemma pass_throw:
  assumes "toDataURL e img w h (mimeType cfg) q = None"
  shows "encodeLoop e img w h cfg q calls
           = Some (Inl EncodeError, calls @ passCalls e img w h cfg q)"
  using assms by (subst encodeLoop.simps) (simp add: passCalls_def)

lemma pass_reject:
  assumes "toDataURL e img w h (mimeType cfg) q = Some u" "fetchBlobSize e u = None"
  shows "encodeLoop e img w h cfg q calls
           = Some (Inl FetchError, calls @ passCalls e img w h cfg q)"
  using assms by (subst encodeLoop.simps) (simp add: passCalls_def)

lemma pass_stop:
  assumes "toDataURL e img w h (mimeType cfg) q = Some u" "fetchBlobSize e u = Some n"
    and "of_nat n \<le> maxSizeBytes cfg \<or> q - qualityStep cfg \<le> minQuality cfg"
  shows "encodeLoop e img w h cfg q calls = Some (Inr u, calls @ passCalls e img w h cfg q)"
  using assms by (subst encodeLoop.simps) (auto simp add: passCalls_def)

lemma pass_again:
  assumes "toDataURL e img w h (mimeType cfg) q = Some u" "fetchBlobSize e u = Some n"
    and "maxSizeBytes cfg < of_nat n" "minQuality cfg < q - qualityStep cfg"
  shows "encodeLoop e img w h cfg q calls
           = encodeLoop e img w h cfg (q - qualityStep cfg) (calls @ passCalls e img w h cfg q)"
  using assms by (subst encodeLoop.simps) (simp add: passCalls_def)

lemma loopPost_throw:
  "toDataURL e img w h (mimeType cfg) q = None \<Longrightarrow>
   loopPost e img w h cfg q (Inl EncodeError) (passCalls e img w h cfg q)"
  by (simp add: loopPost_def)

lemma loopPost_reject:
  "toDataURL e img w h (mimeType cfg) q = Some u \<Longrightarrow> fetchBlobSize e u = None \<Longrightarrow>
   loopPost e img w h cfg q (Inl FetchError) (passCalls e img w h cfg q)"
  by (simp add: loopPost_def)

lemma loopPost_stop:
  "toDataURL e img w h (mimeType cfg) q = Some u \<Longrightarrow> fetchBlobSize e u = Some n \<Longrightarrow>
   of_nat n \<le> maxSizeBytes cfg \<or> q - qualityStep cfg \<le> minQuality cfg \<Longrightarrow>
   loopPost e img w h cfg q (Inr u) (passCalls e img w h cfg q)"
  by (simp add: loopPost_def)

lemma loopPost_step:
  assumes "loopPost e img w h cfg (q - qualityStep cfg) r ext"
    and "minQuality cfg < q - qualityStep cfg"
  shows "loopPost e img w h cfg q r (passCalls e img w h cfg q @ ext)"
  using assms unfolding loopPost_def
  by (cases "encodeQualities ext") (auto split: sum.splits)

text \<open>A pass that is not followed by another one ends the loop as \<open>loopPost\<close> says.\<close>

lemma pass_final:
  assumes "\<not> (\<exists>u n. toDataURL e img w h (mimeType cfg) q = Some u \<and> fetchBlobSize e u = Some n
                 \<and> maxSizeBytes cfg < of_nat n \<and> minQuality cfg < q - qualityStep cfg)"
  shows "\<exists>r. encodeLoop e img w h cfg q calls = Some (r, calls @ passCalls e img w h cfg q)
           \<and> loopPost e img w h cfg q r (passCalls e img w h cfg q)"
proof (cases "toDataURL e img w h (mimeType cfg) q")
  case None
  then show ?thesis using pass_throw loopPost_throw by blast
next
  case (Some u)
  show ?thesis
  proof (cases "fetchBlobSize e u")
    case None
    then show ?thesis using Some pass_reject loopPost_reject by blast
  next
    case fetched: (Some n)
    have "of_nat n \<le> maxSizeBytes cfg \<or> q - qualityStep cfg \<le> minQuality cfg"
      using assms Some fetched by auto
    then show ?thesis using Some fetched pass_stop loopPost_stop by blast
  qed
qed

lemma loopPost_qualities:
  assumes "loopPost e img w h cfg q r ext" "x \<in> set (encodeQualities ext)"
  shows "x = q \<or> minQuality cfg < x"
  using assms unfolding loopPost_def by (cases "encodeQualities ext") auto

lemma steps_left:
  fixes q m s :: rat
  assumes "0 < s" "m < q - s" "nat \<lceil>(q - m) / s\<rceil> \<le> Suc k"
  shows "nat \<lceil>(q - s - m) / s\<rceil> \<le> k" "1 \<le> k"
proof -
  have e: "(q - s - m) / s = (q - m) / s - 1" using assms(1) by (simp add: field_simps)
  have "1 < (q - m) / s" using assms(1,2) by (simp add: field_simps)
  then have "2 \<le> \<lceil>(q - m) / s\<rceil>" by linarith
  then show "nat \<lceil>(q - s - m) / s\<rceil> \<le> k" "1 \<le> k"
    using assms(3) unfolding e by simp_all linarith+
qed

lemma no_steps_left:
  fixes q m s :: rat
  assumes "0 < s" "nat \<lceil>(q - m) / s\<rceil> \<le> 0"
  shows "q - s \<le> m"
proof -
  have "\<lceil>(q - m) / s\<rceil> \<le> 0" using assms(2) by simp
  then have "(q - m) / s \<le> 0" by (simp add: ceiling_le_iff)
  then have "q - m \<le> 0" using assms(1) by (simp add: field_simps)
  then show ?thesis using assms(1) by simp
qed

text \<open>With a positive step the loop returns, after at most \<open>max 1 k\<close> attempts.\<close>

lemma encodeLoop_returns:
  assumes s: "0 < qualityStep cfg"
  shows "nat \<lceil>(q - minQuality cfg) / qualityStep cfg\<rceil> \<le> k \<Longrightarrow>
         \<exists>r ext. encodeLoop e img w h cfg q calls = Some (r, calls @ ext)
           \<and> loopPost e img w h cfg q r ext
           \<and> length (encodeQualities ext) \<le> max 1 k"
proof (induction k arbitrary: q calls)
  case 0
  have "q - qualityStep cfg \<le> minQuality cfg" using no_steps_left [OF s 0] .
  then have "\<not> (\<exists>u n. toDataURL e img w h (mimeType cfg) q = Some u \<and> fetchBlobSize e u = Some n
                 \<and> maxSizeBytes cfg < of_nat n \<and> minQuality cfg < q - qualityStep cfg)"
    by simp
  from pass_final [OF this, of calls] show ?case by fastforce
next
  case (Suc k)
  show ?case
  proof (cases "\<exists>u n. toDataURL e img w h (mimeType cfg) q = Some u \<and> fetchBlobSize e u = Some n
                 \<and> maxSizeBytes cfg < of_nat n \<and> minQuality cfg < q - qualityStep cfg")
    case False
    from pass_final [OF this, of calls] show ?thesis by fastforce
  next
    case True
    then obtain u n where pass: "toDataURL e img w h (mimeType cfg) q = Some u"
      "fetchBlobSize e u = Some n" "maxSizeBytes cfg < of_nat n"
      "minQuality cfg < q - qualityStep cfg" by blast
    let ?q' = "q - qualityStep cfg"
    let ?calls' = "calls @ passCalls e img w h cfg q"
    have left: "nat \<lceil>(?q' - minQuality cfg) / qualityStep cfg\<rceil> \<le> k" "1 \<le> k"
      using steps_left [OF s pass(4) Suc.prems] by simp_all
    from Suc.IH [OF left(1), of ?calls'] obtain r ext where
      run: "encodeLoop e img w h cfg ?q' ?calls' = Some (r, ?calls' @ ext)"
      and post: "loopPost e img w h cfg ?q' r ext"
      and len: "length (encodeQualities ext) \<le> max 1 k" by blast
    have "encodeLoop e img w h cfg q calls = Some (r, calls @ (passCalls e img w h cfg q @ ext))"
      using pass_again [OF pass] run by simp
    moreover have "loopPost e img w h cfg q r (passCalls e img w h cfg q @ ext)"
      using post pass(4) by (rule loopPost_step)
    moreover have "length (encodeQualities (passCalls e img w h cfg q @ ext)) \<le> max 1 (Suc k)"
      using len left(2) by simp
    ultimately show ?thesis by blast
  qed
qed

text \<open>Whenever the loop returns, positive step or not, its result is as \<open>loopPost\<close> says.\<close>

lemma encodeLoop_post:
  assumes "encodeLoop e img w h cfg q calls = Some y"
  shows "\<exists>ext. snd y = calls @ ext \<and> loopPost e img w h cfg q (fst y) ext"
  using assms
proof (induct rule: encodeLoop.raw_induct [rotated 1, consumes 1])
  case (1 f e img w h cfg q calls y)
  note IH = 1(1) and body = 1(2)
  show ?case
  proof (cases "toDataURL e img w h (mimeType cfg) q")
    case None
    then have "y = (Inl EncodeError, calls @ passCalls e img w h cfg q)"
      using body by (simp add: passCalls_def)
    then show ?thesis using loopPost_throw [OF None] by simp
  next
    case (Some u)
    show ?thesis
    proof (cases "fetchBlobSize e u")
      case None
      then have "y = (Inl FetchError, calls @ passCalls e img w h cfg q)"
        using body Some by (simp add: passCalls_def)
      then show ?thesis using loopPost_reject [OF Some None] by simp
    next
      case fetched: (Some n)
      show ?thesis
      proof (cases "of_nat n > maxSizeBytes cfg \<and> q - qualityStep cfg > minQuality cfg")
        case False
        then have "y = (Inr u, calls @ passCalls e img w h cfg q)"
          using body Some fetched by (auto simp add: passCalls_def)
        moreover have "loopPost e img w h cfg q (Inr u) (passCalls e img w h cfg q)"
          using False by (intro loopPost_stop [OF Some fetched]) auto
        ultimately show ?thesis by simp
      next
        case True
        then have "f e img w h cfg (q - qualityStep cfg) (calls @ passCalls e img w h cfg q)
                     = Some y"
          using body Some fetched by (simp add: passCalls_def)
        from IH [OF this] obtain ext where
          "snd y = (calls @ passCalls e img w h cfg q) @ ext"
          "loopPost e img w h cfg (q - qualityStep cfg) (fst y) ext" by blast
        then show ?thesis using loopPost_step True by fastforce
      qed
    qed
  qed
qed

subsection \<open>Data URLs\<close>


lemma split_at_comma:
  "list_all (\<lambda>c. c \<noteq> CHR '','') a \<Longrightarrow> split (a @ CHR '','' # b) = a # split b"
  by (induction a) simp_all

lemma untilSemicolon_plain:
  "list_all (\<lambda>c. c \<noteq> CHR '';'' \<and> \<not> isLineTerminator c) m \<Longrightarrow>
   untilSemicolon (m @ CHR '';'' # rest) = Some m"
  by (induction m) simp_all

lemma plainMime_parts:
  assumes "plainMime m"
  shows "list_all (\<lambda>c. c \<noteq> CHR '';'' \<and> \<not> isLineTerminator c) m"
    and "list_all (\<lambda>c. c \<noteq> CHR '','') m"
  using assms unfolding plainMime_def by (simp_all add: list_all_iff)


lemma matchMime_header:
  assumes "plainMime m"
  shows "matchMime (''data:'' @ m @ '';base64'') = Some m"
  using untilSemicolon_plain [OF plainMime_parts(1) [OF assms], of "''base64''"] by simp


lemma buildResult_qualities:
  "buildResult e f u calls = (r, calls') \<Longrightarrow> encodeQualities calls' = encodeQualities calls"
  by (auto simp add: buildResult_def Let_def split: option.splits)

lemma buildResult_Inr:
  assumes "buildResult e f u calls = (Inr out, calls')"
  shows "name out = replaceExtension (name f) \<and> matchMime (hd (split u)) = Some (type out)"
  using assms by (auto simp add: buildResult_def Let_def split: option.splits)

lemma hd_split_dataURL:
  assumes "plainMime m"
  shows "hd (split (dataURL m p)) = ''data:'' @ m @ '';base64''"
proof -
  have "list_all (\<lambda>c. c \<noteq> CHR '','') (''data:'' @ m @ '';base64'')"
    using plainMime_parts(2) [OF assms] by simp
  from split_at_comma [OF this, of p] show ?thesis by (simp add: dataURL_def)
qed

subsection \<open>The file name\<close>

lemma isWordChar_dot [simp]: "\<not> isWordChar (CHR ''.'')"
  by (simp add: isWordChar_def)

lemma replaceExtension_match:
  "x \<noteq> [] \<Longrightarrow> list_all isWordChar x \<Longrightarrow> replaceExtension (b @ CHR ''.'' # x) = b @ ''.webp''"
  by (induction b) simp_all

lemma replaceExtension_no_match:
  "(\<forall>b x. n = b @ CHR ''.'' # x \<longrightarrow> x = [] \<or> \<not> list_all isWordChar x) \<Longrightarrow>
   replaceExtension n = n"
proof (induction n)
  case Nil
  then show ?case by simp
next
  case (Cons c n)
  have here: "\<not> (c = CHR ''.'' \<and> n \<noteq> [] \<and> list_all isWordChar n)"
    using Cons.prems [rule_format, of "[]" n] by auto
  have "\<forall>b x. n = b @ CHR ''.'' # x \<longrightarrow> x = [] \<or> \<not> list_all isWordChar x"
  proof (intro allI impI)
    fix b x assume "n = b @ CHR ''.'' # x"
    then have "c # n = (c # b) @ CHR ''.'' # x" by simp
    then show "x = [] \<or> \<not> list_all isWordChar x" using Cons.prems by blast
  qed
  then have "replaceExtension n = n" by (rule Cons.IH)
  then show ?case using here by auto
qed

subsection \<open>The whole function\<close>

lemma compress_decoded:
  assumes "prefix ''image/'' (type f)" "readAsDataURL e f = Some d" "loadImage e d = Some img"
    and "planDimensions (width img) (height img) cfg = (s, w, h)"
  shows "compressImageFileWithLimit e f cfg =
           (case encodeLoop e img w h cfg (initialQuality cfg) [ReadAsDataURL, LoadImage] of
              None \<Rightarrow> None
            | Some (Inl err, calls) \<Rightarrow> Some (Inl err, calls)
            | Some (Inr u, calls) \<Rightarrow> Some (buildResult e f u calls))"
  using assms by (simp add: compressImageFileWithLimit_def)

lemma compress_undecoded:
  assumes "\<not> (prefix ''image/'' (type f)
              \<and> (\<exists>d img. readAsDataURL e f = Some d \<and> loadImage e d = Some img))"
  shows "\<exists>r calls. compressImageFileWithLimit e f cfg = Some (r, calls) \<and> encodeQualities calls = []"
  using assms by (auto simp add: compressImageFileWithLimit_def split: option.splits)

text \<open>With a positive step a decoded image always yields a result.\<close>

lemma compress_returns:
  assumes "prefix ''image/'' (type f)" "readAsDataURL e f = Some d" "loadImage e d = Some img"
    and "planDimensions (width img) (height img) cfg = (s, w, h)"
    and "0 < qualityStep cfg"
  shows "\<exists>r0 ext r calls.
           loopPost e img w h cfg (initialQuality cfg) r0 ext
           \<and> length (encodeQualities ext)
               \<le> max 1 (nat \<lceil>(initialQuality cfg - minQuality cfg) / qualityStep cfg\<rceil>)
           \<and> compressImageFileWithLimit e f cfg = Some (r, calls)
           \<and> encodeQualities calls = encodeQualities ext
           \<and> (case r0 of Inl err \<Rightarrow> r = Inl err
                | Inr u \<Rightarrow> (r, calls) = buildResult e f u ([ReadAsDataURL, LoadImage] @ ext))"
proof -
  from encodeLoop_returns [OF assms(5) order_refl, of e img w h "initialQuality cfg" "[ReadAsDataURL, LoadImage]"]
  obtain r0 ext where
    run: "encodeLoop e img w h cfg (initialQuality cfg) [ReadAsDataURL, LoadImage]
            = Some (r0, [ReadAsDataURL, LoadImage] @ ext)"
    and post: "loopPost e img w h cfg (initialQuality cfg) r0 ext"
    and len: "length (encodeQualities ext)
               \<le> max 1 (nat \<lceil>(initialQuality cfg - minQuality cfg) / qualityStep cfg\<rceil>)"
    by blast
  show ?thesis
  proof (cases r0)
    case (Inl err)
    then have "compressImageFileWithLimit e f cfg = Some (Inl err, [ReadAsDataURL, LoadImage] @ ext)"
      using compress_decoded [OF assms(1-4)] run by simp
    then show ?thesis using post len Inl by fastforce
  next
    case (Inr u)
    obtain r calls where b: "buildResult e f u ([ReadAsDataURL, LoadImage] @ ext) = (r, calls)"
      by (cases "buildResult e f u ([ReadAsDataURL, LoadImage] @ ext)") blast
    have "compressImageFileWithLimit e f cfg = Some (r, calls)"
      using compress_decoded [OF assms(1-4)] run Inr b by simp
    moreover have "encodeQualities calls = encodeQualities ext"
      using buildResult_qualities [OF b] by simp
    ultimately show ?thesis using post len Inr b by fastforce
  qed
qed

text \<open>Whenever a decoded image yields a result, it is built from a run of the loop.\<close>

lemma compress_result:
  assumes "prefix ''image/'' (type f)" "readAsDataURL e f = Some d" "loadImage e d = Some img"
    and "planDimensions (width img) (height img) cfg = (s, w, h)"
    and "compressImageFileWithLimit e f cfg = Some (r, calls)"
  shows "\<exists>r0 ext.
           loopPost e img w h cfg (initialQuality cfg) r0 ext
           \<and> encodeQualities calls = encodeQualities ext
           \<and> (case r0 of Inl err \<Rightarrow> r = Inl err
                | Inr u \<Rightarrow> (r, calls) = buildResult e f u ([ReadAsDataURL, LoadImage] @ ext))"
proof -
  from assms(5) compress_decoded [OF assms(1-4)] obtain y where
    run: "encodeLoop e img w h cfg (initialQuality cfg) [ReadAsDataURL, LoadImage] = Some y"
    by (cases "encodeLoop e img w h cfg (initialQuality cfg) [ReadAsDataURL, LoadImage]") auto
  from encodeLoop_post [OF run] obtain ext where
    y: "snd y = [ReadAsDataURL, LoadImage] @ ext"
    and post: "loopPost e img w h cfg (initialQuality cfg) (fst y) ext" by blast
  show ?thesis
  proof (cases "fst y")
    case (Inl err)
    then have "y = (Inl err, [ReadAsDataURL, LoadImage] @ ext)" using y by (cases y) simp
    then have "r = Inl err" "calls = [ReadAsDataURL, LoadImage] @ ext"
      using assms(5) compress_decoded [OF assms(1-4)] run by simp_all
    then show ?thesis using post Inl by fastforce
  next
    case (Inr u)
    then have "y = (Inr u, [ReadAsDataURL, LoadImage] @ ext)" using y by (cases y) simp
    then have b: "(r, calls) = buildResult e f u ([ReadAsDataURL, LoadImage] @ ext)"
      using assms(5) compress_decoded [OF assms(1-4)] run by simp
    moreover have "encodeQualities calls = encodeQualities ext"
      using buildResult_qualities [OF b [symmetric]] by simp
    ultimately show ?thesis using post Inr by fastforce
  qed
qed

lemma compress_Inr_name:
  assumes "prefix ''image/'' (type f)" "compressImageFileWithLimit e f cfg = Some (Inr out, calls)"
  shows "name out = replaceExtension (name f)"
proof -
  from assms obtain u calls0 where "buildResult e f u calls0 = (Inr out, calls)"
    by (auto simp add: compressImageFileWithLimit_def split: option.splits prod.splits sum.splits)
  then show ?thesis using buildResult_Inr by blast
qed

subsection \<open>Runs of the examples\<close>

lemmas example_simps =
  compressImageFileWithLimit_def planDimensions_def shortSide_def longSide_def isPortrait_def
  Math_round_def floor_eq_iff exampleEnv_def pngOnlyEnv_def examplePhoto_def encodeLoop.simps
  buildResult_def isWordChar_def isLineTerminator_def defaults_def tightConfig_def

lemma example_decoded:
  "prefix ''image/'' (type examplePhoto)"
  "readAsDataURL exampleEnv examplePhoto = Some ''data:image/jpeg;base64,LzlqLw==''"
  "loadImage exampleEnv ''data:image/jpeg;base64,LzlqLw=='' = Some exampleImage"
  "readAsDataURL pngOnlyEnv examplePhoto = Some ''data:image/jpeg;base64,LzlqLw==''"
  "loadImage pngOnlyEnv ''data:image/jpeg;base64,LzlqLw=='' = Some exampleImage"
  by (simp_all add: examplePhoto_def exampleEnv_def pngOnlyEnv_def exampleImage_def)

lemma example_plans:
  "planDimensions (width exampleImage) (height exampleImage) defaults = (48 / 125, 1152, 768)"
  "planDimensions (width exampleImage) (height exampleImage) tightConfig = (48 / 125, 1152, 768)"
  by (simp_all add: exampleImage_def planDimensions_def shortSide_def longSide_def
      isPortrait_def defaults_def tightConfig_def Math_round_def floor_eq_iff)

subsection \<open>The claims about the whole function\<close>

text \<open>
  Claim C1. With a positive quality step and a quality floor below the initial quality,
  the function returns for every input, and the loop has made at most
  \<open>\<lceil>(initialQuality - minQuality) / qualityStep\<rceil> + 1\<close> encode attempts, the qualities being
  exact rationals.
\<close>

theorem encode_attempts_bounded:
  assumes "0 < qualityStep cfg" "minQuality cfg < initialQuality cfg"
  shows "\<exists>r calls. compressImageFileWithLimit e f cfg = Some (r, calls)
           \<and> length (encodeQualities calls)
               \<le> nat \<lceil>(initialQuality cfg - minQuality cfg) / qualityStep cfg\<rceil> + 1"
proof (cases "prefix ''image/'' (type f)
              \<and> (\<exists>d img. readAsDataURL e f = Some d \<and> loadImage e d = Some img)")
  case False
  from compress_undecoded [OF False, of cfg] show ?thesis by fastforce
next
  case True
  then obtain d img where dec: "prefix ''image/'' (type f)" "readAsDataURL e f = Some d"
    "loadImage e d = Some img" by blast
  obtain s w h where plan: "planDimensions (width img) (height img) cfg = (s, w, h)"
    by (cases "planDimensions (width img) (height img) cfg") blast
  from compress_returns [OF dec plan assms(1)] obtain ext r calls where
    "length (encodeQualities ext)
       \<le> max 1 (nat \<lceil>(initialQuality cfg - minQuality cfg) / qualityStep cfg\<rceil>)"
    "compressImageFileWithLimit e f cfg = Some (r, calls)"
    "encodeQualities calls = encodeQualities ext" by blast
  then show ?thesis by fastforce
qed

theorem encode_attempts_bounded_witness:
  "0 < qualityStep tightConfig \<and> minQuality tightConfig < initialQuality tightConfig
   \<and> (\<exists>r calls. compressImageFileWithLimit exampleEnv examplePhoto tightConfig = Some (r, calls)
         \<and> length (encodeQualities calls) \<le> 7)"
  using encode_attempts_bounded [of tightConfig exampleEnv examplePhoto]
  by (simp add: tightConfig_def defaults_def)

text \<open>
  Claim C9. Under the same two assumptions every quality passed to the encoder is
  strictly above the quality floor: the first attempt is at the initial quality, and
  another attempt is made only when the decremented quality is above the floor.
\<close>

theorem encode_qualities_above_floor:
  assumes "0 < qualityStep cfg" "minQuality cfg < initialQuality cfg"
  shows "\<exists>r calls. compressImageFileWithLimit e f cfg = Some (r, calls)
           \<and> (\<forall>q \<in> set (encodeQualities calls). minQuality cfg < q)"
proof (cases "prefix ''image/'' (type f)
              \<and> (\<exists>d img. readAsDataURL e f = Some d \<and> loadImage e d = Some img)")
  case False
  from compress_undecoded [OF False, of cfg] show ?thesis by fastforce
next
  case True
  then obtain d img where dec: "prefix ''image/'' (type f)" "readAsDataURL e f = Some d"
    "loadImage e d = Some img" by blast
  obtain s w h where plan: "planDimensions (width img) (height img) cfg = (s, w, h)"
    by (cases "planDimensions (width img) (height img) cfg") blast
  from compress_returns [OF dec plan assms(1)] obtain r0 ext r calls where
    post: "loopPost e img w h cfg (initialQuality cfg) r0 ext"
    and run: "compressImageFileWithLimit e f cfg = Some (r, calls)"
    and qs: "encodeQualities calls = encodeQualities ext" by blast
  have "\<forall>q \<in> set (encodeQualities calls). minQuality cfg < q"
    using loopPost_qualities [OF post] assms(2) unfolding qs by blast
  then show ?thesis using run by blast
qed

theorem encode_qualities_above_floor_witness:
  "0 < qualityStep tightConfig \<and> minQuality tightConfig < initialQuality tightConfig
   \<and> (\<exists>r calls. compressImageFileWithLimit exampleEnv examplePhoto tightConfig = Some (r, calls)
         \<and> (\<forall>q \<in> set (encodeQualities calls). 1 / 2 < q))"
  using encode_qualities_above_floor [of tightConfig exampleEnv examplePhoto]
  by (simp add: tightConfig_def defaults_def)

text \<open>
  Claim C6. A file whose declared type does not start with \<^verbatim>\<open>image/\<close> is returned as
  it is, and no capability is called: the log is empty.
\<close>

theorem non_image_passes_through:
  "\<not> prefix ''image/'' (type f) \<Longrightarrow> compressImageFileWithLimit e f cfg = Some (Inr f, [])"
  by (simp add: compressImageFileWithLimit_def)

theorem non_image_passes_through_witness:
  "\<not> prefix ''image/'' ''application/pdf''
   \<and> compressImageFileWithLimit exampleEnv
        \<lparr>name = ''paper.pdf'', type = ''application/pdf'', bytes = ''%PDF''\<rparr> defaults
      = Some (Inr \<lparr>name = ''paper.pdf'', type = ''application/pdf'', bytes = ''%PDF''\<rparr>, [])"
  using non_image_passes_through
    [of "\<lparr>name = ''paper.pdf'', type = ''application/pdf'', bytes = ''%PDF''\<rparr>" exampleEnv defaults]
  by simp



text \<open>
  The premise on the shape of the data URL is needed. A canvas with no pixels answers
  \<^verbatim>\<open>data:,\<close>, whose blob is empty and so within any budget; the loop ends after that
  one attempt, line 86 finds no match and the function throws.
\<close>

lemma empty_canvas_throws:
  assumes "prefix ''image/'' (type f)" "readAsDataURL e f = Some d" "loadImage e d = Some img"
    and "planDimensions (width img) (height img) cfg = (s, w, h)"
    and "toDataURL e img w h (mimeType cfg) (initialQuality cfg) = Some ''data:,''"
    and "fetchBlobSize e ''data:,'' = Some n" "of_nat n \<le> maxSizeBytes cfg"
  shows "compressImageFileWithLimit e f cfg =
           Some (Inl TypeError,
                 [ReadAsDataURL, LoadImage, ToDataURL w h (mimeType cfg) (initialQuality cfg),
                  Fetch ''data:,''])"
proof -
  have "encodeLoop e img w h cfg (initialQuality cfg) [ReadAsDataURL, LoadImage] =
          Some (Inr ''data:,'',
                [ReadAsDataURL, LoadImage, ToDataURL w h (mimeType cfg) (initialQuality cfg),
                 Fetch ''data:,''])"
    using pass_stop [OF assms(5,6) disjI1 [OF assms(7)], of "[ReadAsDataURL, LoadImage]"] assms(5)
    by (simp add: passCalls_def)
  then show ?thesis
    using compress_decoded [OF assms(1-4)] by (simp add: buildResult_def)
qed



text \<open>
  Claim C10. Whenever an image yields a file, the type of that file is what line 86 reads
  from the header of the data URL of the last encode attempt; when that data URL is
  \<^verbatim>\<open>data:<m>;base64,...\<close> the type is \<open>m\<close>, whatever \<open>mimeType\<close> was configured.
\<close>

theorem output_type_from_data_url:
  assumes "prefix ''image/'' (type f)" "readAsDataURL e f = Some d" "loadImage e d = Some img"
    and "planDimensions (width img) (height img) cfg = (s, w, h)"
    and "compressImageFileWithLimit e f cfg = Some (Inr out, calls)"
  shows "encodeQualities calls \<noteq> []
         \<and> (\<exists>u. toDataURL e img w h (mimeType cfg) (last (encodeQualities calls)) = Some u
                \<and> matchMime (hd (split u)) = Some (type out))
         \<and> (\<forall>m p. toDataURL e img w h (mimeType cfg) (last (encodeQualities calls))
                      = Some (dataURL m p)
                    \<and> plainMime m \<longrightarrow> type out = m)"
proof -
  from compress_result [OF assms] obtain r0 ext where
    post: "loopPost e img w h cfg (initialQuality cfg) r0 ext"
    and qs: "encodeQualities calls = encodeQualities ext"
    and res: "case r0 of Inl err \<Rightarrow> Inr out = Inl err
                | Inr u \<Rightarrow> (Inr out, calls) = buildResult e f u ([ReadAsDataURL, LoadImage] @ ext)"
    by blast
  let ?q = "last (encodeQualities calls)"
  from res obtain u where r0: "r0 = Inr u"
    and b: "buildResult e f u ([ReadAsDataURL, LoadImage] @ ext) = (Inr out, calls)"
    by (cases r0) simp_all
  have u: "toDataURL e img w h (mimeType cfg) ?q = Some u"
    using post r0 qs by (simp add: loopPost_def)
  have ne: "encodeQualities calls \<noteq> []" using post qs by (simp add: loopPost_def)
  have mime: "matchMime (hd (split u)) = Some (type out)"
    using buildResult_Inr [OF b] by simp
  have "type out = m"
    if "toDataURL e img w h (mimeType cfg) ?q = Some (dataURL m p)" "plainMime m" for m p
    using mime u that hd_split_dataURL [OF that(2), of p] matchMime_header [OF that(2)] by simp
  then show ?thesis using ne mime u by blast
qed

theorem output_type_from_data_url_witness:
  "mimeType defaults = ''image/webp''
   \<and> (\<exists>out calls. compressImageFileWithLimit pngOnlyEnv examplePhoto defaults = Some (Inr out, calls)
         \<and> type out = ''image/png'')"
proof -
  let ?calls = "[ReadAsDataURL, LoadImage, ToDataURL 1152 768 ''image/webp'' (23 / 25),
                 Fetch ''data:image/png;base64,QUJD'', Atob ''QUJD'']"
  obtain out where run:
    "compressImageFileWithLimit pngOnlyEnv examplePhoto defaults = Some (Inr out, ?calls)"
    by (simp add: example_simps)
  have png: "toDataURL pngOnlyEnv exampleImage 1152 768 (mimeType defaults)
               (last (encodeQualities ?calls)) = Some (dataURL ''image/png'' ''QUJD'')
             \<and> plainMime ''image/png''"
    by (simp add: pngOnlyEnv_def exampleEnv_def dataURL_def plainMime_def isLineTerminator_def)
  from output_type_from_data_url [OF example_decoded(1,4,5) example_plans(1) run] png
  have "type out = ''image/png''" by blast
  then show ?thesis using run by (auto simp add: defaults_def)
qed

text \<open>
  Claim C7 as stated fails: a name without an extension is returned unchanged, the
  extension \<^verbatim>\<open>.webp\<close> of the configured \<^verbatim>\<open>image/webp\<close> is not appended.
\<close>

theorem name_extension_counterexample:
  "compressImageFileWithLimit exampleEnv plainPhoto defaults =
     Some (Inr \<lparr>name = ''photo'', type = ''image/webp'', bytes = ''ABC''\<rparr>,
           [ReadAsDataURL, LoadImage, ToDataURL 1152 768 ''image/webp'' (23 / 25),
            Fetch ''data:image/webp;base64,QUJD'', Atob ''QUJD''])
   \<and> ''photo'' \<noteq> ''photo'' @ ''.webp''"
  by (simp add: example_simps plainPhoto_def)

text \<open>
  The replacement is the constant \<^verbatim>\<open>.webp\<close> also when another output format is
  configured: a JPEG result is named \<^verbatim>\<open>photo.webp\<close>.
\<close>

lemma name_extension_ignores_mimeType:
  "compressImageFileWithLimit exampleEnv examplePhoto (defaults\<lparr>mimeType := ''image/jpeg''\<rparr>) =
     Some (Inr \<lparr>name = ''photo.webp'', type = ''image/jpeg'', bytes = ''ABC''\<rparr>,
           [ReadAsDataURL, LoadImage, ToDataURL 1152 768 ''image/jpeg'' (23 / 25),
            Fetch ''data:image/jpeg;base64,QUJD'', Atob ''QUJD''])"
  by (simp add: example_simps)

text \<open>
  Claim C7, as the code has it, for the configured type \<^verbatim>\<open>image/webp\<close>. Whenever an
  image yields a file: if the original name ends in a dot followed by one or more word
  characters, that suffix is replaced by \<^verbatim>\<open>.webp\<close>; if it has no such suffix, the name
  is unchanged.
\<close>

theorem name_extension_replaced:
  assumes "prefix ''image/'' (type f)" "mimeType cfg = ''image/webp''"
    and "compressImageFileWithLimit e f cfg = Some (Inr out, calls)"
  shows "(\<forall>b x. name f = b @ CHR ''.'' # x \<and> x \<noteq> [] \<and> list_all isWordChar x
              \<longrightarrow> name out = b @ ''.webp'')
         \<and> ((\<forall>b x. name f = b @ CHR ''.'' # x \<longrightarrow> x = [] \<or> \<not> list_all isWordChar x)
              \<longrightarrow> name out = name f)"
proof -
  have n: "name out = replaceExtension (name f)"
    using assms(1,3) by (rule compress_Inr_name)
  show ?thesis unfolding n
    by (auto simp add: replaceExtension_match intro: replaceExtension_no_match)
qed

theorem name_extension_replaced_witness:
  "\<exists>out calls. compressImageFileWithLimit exampleEnv examplePhoto defaults = Some (Inr out, calls)
     \<and> name out = ''photo.webp''"
proof -
  let ?calls = "[ReadAsDataURL, LoadImage, ToDataURL 1152 768 ''image/webp'' (23 / 25),
                 Fetch ''data:image/webp;base64,QUJD'', Atob ''QUJD'']"
  obtain out where run:
    "compressImageFileWithLimit exampleEnv examplePhoto defaults = Some (Inr out, ?calls)"
    by (simp add: example_simps)
  have m: "mimeType defaults = ''image/webp''" by (simp add: defaults_def)
  have ext: "name examplePhoto = ''photo'' @ CHR ''.'' # ''jpeg'' \<and> ''jpeg'' \<noteq> []
               \<and> list_all isWordChar ''jpeg''"
    by (simp add: examplePhoto_def isWordChar_def)
  from name_extension_replaced [OF example_decoded(1) m run] ext
  have "name out = ''photo'' @ ''.webp''" by blast
  then show ?thesis using run by auto
qed

end
